theory Spec2Isabelle
  imports Main
begin

section \<open>Python string operations used by the two modules\<close>

text \<open>
  Python \<open>str\<close> values are modelled as HOL strings, whose characters are the code
  points \<open>0\<close> to \<open>255\<close>. The character classes are those of Python on that range:
  \<open>str.isspace\<close> (the class that \<open>strip()\<close> and \<open>split()\<close> use) holds for the
  code points 9 to 13, 28 to 32, 133 (U+0085) and 160 (U+00A0); \<open>str.isupper\<close> of a
  character for \<open>A\<close> to \<open>Z\<close>, U+00C0 to U+00D6 and U+00D8 to U+00DE; \<open>str.islower\<close>
  of a character for \<open>a\<close> to \<open>z\<close>, U+00AA, U+00B5, U+00BA, U+00DF to U+00F6 and
  U+00F8 to U+00FF. No character of the range is title-case.
\<close>

definition is_space :: "char \<Rightarrow> bool" where
  "is_space c = (let n = (of_char c :: nat)
                 in (9 \<le> n \<and> n \<le> 13) \<or> (28 \<le> n \<and> n \<le> 32) \<or> n = 133 \<or> n = 160)"

definition is_upper :: "char \<Rightarrow> bool" where
  "is_upper c = (let n = (of_char c :: nat)
                 in (65 \<le> n \<and> n \<le> 90) \<or> (192 \<le> n \<and> n \<le> 214) \<or> (216 \<le> n \<and> n \<le> 222))"

definition is_lower :: "char \<Rightarrow> bool" where
  "is_lower c = (let n = (of_char c :: nat)
                 in (97 \<le> n \<and> n \<le> 122) \<or> n = 170 \<or> n = 181 \<or> n = 186
                    \<or> (223 \<le> n \<and> n \<le> 246) \<or> (248 \<le> n \<and> n \<le> 255))"

text \<open>\<open>s.strip()\<close>: whitespace removed at both ends.\<close>

definition py_strip :: "string \<Rightarrow> string" where
  "py_strip s = rev (dropWhile is_space (rev (dropWhile is_space s)))"

text \<open>
  Splitting at every character of a class, keeping empty pieces: this is
  \<open>s.split(' ')\<close> for the class of the space character and \<open>re.split\<close> for a
  one-character class pattern. The result is never the empty list.
\<close>

fun split_at :: "(char \<Rightarrow> bool) \<Rightarrow> string \<Rightarrow> string list" where
  "split_at P [] = [[]]"
| "split_at P (c # cs) =
     (if P c then [] # split_at P cs
      else (case split_at P cs of [] \<Rightarrow> [[c]] | w # ws \<Rightarrow> (c # w) # ws))"

text \<open>\<open>s.split()\<close>: pieces between whitespace runs, empty pieces dropped.\<close>

definition py_split :: "string \<Rightarrow> string list" where
  "py_split s = filter (\<lambda>x. x \<noteq> []) (split_at is_space s)"

text \<open>\<open>s.split(' ')\<close>: a piece for every single space character.\<close>

definition py_split_space :: "string \<Rightarrow> string list" where
  "py_split_space s = split_at (\<lambda>c. c = CHR '' '') s"

text \<open>\<open>sep.join(xs)\<close>.\<close>

fun py_join :: "string \<Rightarrow> string list \<Rightarrow> string" where
  "py_join sep [] = []"
| "py_join sep [x] = x"
| "py_join sep (x # y # ys) = x @ sep @ py_join sep (y # ys)"

text \<open>
  \<open>s.isupper()\<close>: at least one upper-case character and no lower-case one.
\<close>

definition py_isupper :: "string \<Rightarrow> bool" where
  "py_isupper s = (list_ex is_upper s \<and> \<not> list_ex is_lower s)"

text \<open>\<open>s.endswith(suf)\<close>.\<close>

definition py_endswith :: "string \<Rightarrow> string \<Rightarrow> bool" where
  "py_endswith s suf = (length suf \<le> length s \<and> drop (length s - length suf) s = suf)"

text \<open>\<open>s.startswith(pre)\<close>, used by the substring test and by \<open>replace\<close>.\<close>

definition py_startswith :: "string \<Rightarrow> string \<Rightarrow> bool" where
  "py_startswith s pre = (take (length pre) s = pre)"

text \<open>\<open>sub in s\<close>.\<close>

fun py_contains :: "string \<Rightarrow> string \<Rightarrow> bool" where
  "py_contains sub [] = (sub = [])"
| "py_contains sub (c # cs) = (py_startswith (c # cs) sub \<or> py_contains sub cs)"

text \<open>
  \<open>s.replace(old, new)\<close>: the occurrences of \<open>old\<close> are found from the left and do
  not overlap. For the empty \<open>old\<close> Python puts \<open>new\<close> before every character and at
  the end.
\<close>

function py_replace :: "string \<Rightarrow> string \<Rightarrow> string \<Rightarrow> string" where
  "py_replace old new [] = (if old = [] then new else [])"
| "py_replace old new (c # cs) =
     (if old = [] then new @ c # py_replace old new cs
      else if py_startswith (c # cs) old
           then new @ py_replace old new (drop (length old) (c # cs))
           else c # py_replace old new cs)"
  by pat_completeness auto
termination
  by (relation "measure (\<lambda>(old, new, s). length s)") (auto simp: neq_Nil_conv)

section \<open>nlp_architect/utils/text.py\<close>

datatype py_error = IndexError | KeyError

text \<open>
  The pattern \<open>p = re.compile(r'[ \-,;.@&_]')\<close>: one character of the class.
\<close>

definition p_class :: "char \<Rightarrow> bool" where
  "p_class c = (c \<in> set '' -,;.@&_'')"

definition p_split :: "string \<Rightarrow> string list" where
  "p_split s = split_at p_class s"

text \<open>
  The stemmer (\<open>EnglishStemmer().stem\<close>) and the spaCy lemmatizer are library
  objects; they are parameters of the model. The lemmatizer returns a list of lemmas
  and the code reads its element \<open>0\<close>, which raises \<open>IndexError\<close> on an empty list.
  The comprehension stops at the first element that raises.
\<close>

fun stem_lemmatized :: "(string \<Rightarrow> string) \<Rightarrow> (string \<Rightarrow> string \<Rightarrow> string list)
    \<Rightarrow> string list \<Rightarrow> py_error + string list" where
  "stem_lemmatized stem spacy_lemmatizer [] = Inr []"
| "stem_lemmatized stem spacy_lemmatizer (t # ts) =
     (case spacy_lemmatizer t ''NOUN'' of
        [] \<Rightarrow> Inl IndexError
      | l # _ \<Rightarrow>
         (case stem_lemmatized stem spacy_lemmatizer ts of
            Inl e \<Rightarrow> Inl e
          | Inr r \<Rightarrow> Inr (stem l # r)))"

text \<open>
  \<open>spacy_normalizer(text, lemma=None)\<close>. The guard is the negation of the source's
  condition; \<open>if lemma:\<close> holds for a lemma that is given and not the empty string.
\<close>

definition spacy_normalizer :: "(string \<Rightarrow> string) \<Rightarrow> (string \<Rightarrow> string \<Rightarrow> string list)
    \<Rightarrow> string \<Rightarrow> string option \<Rightarrow> py_error + string" where
  "spacy_normalizer stem spacy_lemmatizer text lemma =
     (if \<not> py_isupper text \<or> \<not> py_endswith text ''S'' \<or> \<not> length (py_split text) = 1
      then
        (let tokens = filter (\<lambda>x. length x \<noteq> 0) (p_split (py_strip text)) in
         (case lemma of
            Some l \<Rightarrow>
              (if l \<noteq> [] then Inr (py_join '' '' (map stem (py_split_space l)))
               else (case stem_lemmatized stem spacy_lemmatizer tokens of
                       Inl e \<Rightarrow> Inl e
                     | Inr r \<Rightarrow> Inr (py_join '' '' r)))
          | None \<Rightarrow>
              (case stem_lemmatized stem spacy_lemmatizer tokens of
                 Inl e \<Rightarrow> Inl e
               | Inr r \<Rightarrow> Inr (py_join '' '' r))))
      else Inr text)"

section \<open>solutions/set_expansion/prepare_data.py\<close>

text \<open>
  What the script reads of a spaCy token (\<open>token.text\<close>, \<open>token.idx\<close>), of a noun
  chunk (\<open>span.start_char\<close>, \<open>span.end_char\<close>, \<open>span.text\<close>, \<open>span.lemma_\<close>) and of
  a parsed line (\<open>doc\<close>, \<open>doc.noun_chunks\<close>), and the two options it uses.
\<close>

record token =
  tok_text :: string
  tok_idx :: int

record span =
  start_char :: int
  end_char :: int
  span_text :: string
  span_lemma :: string

record doc =
  doc_tokens :: "token list"
  noun_chunks :: "span list"

record args =
  mark_char :: string
  grouping :: bool

text \<open>
  The module-level dictionaries and the contents written so far to
  \<open>marked_corpus_file\<close>. \<open>id2group\<close> maps a key to a Python list.
\<close>

record state =
  np2id :: "string \<rightharpoonup> string"
  id2group :: "string \<rightharpoonup> string list"
  id2rep :: "string \<rightharpoonup> string"
  np2count :: "string \<rightharpoonup> nat"
  marked_corpus_file :: string

definition init_state :: state where
  "init_state = \<lparr>np2id = Map.empty, id2group = Map.empty, id2rep = Map.empty,
                  np2count = Map.empty, marked_corpus_file = []\<rparr>"

definition file_write :: "string \<Rightarrow> state \<Rightarrow> state" where
  "file_write s st = st\<lparr>marked_corpus_file := marked_corpus_file st @ s\<rparr>"

text \<open>Lines 101-102 and 106-107: a token outside every span.\<close>

definition write_token :: "token \<Rightarrow> state \<Rightarrow> state" where
  "write_token tok st =
     (if length (py_strip (tok_text tok)) > 0 then file_write (tok_text tok @ '' '') st else st)"

text \<open>Lines 115-118: the occurrence of the noun phrase is counted.\<close>

definition count_np :: "string \<Rightarrow> state \<Rightarrow> state" where
  "count_np np st =
     st\<lparr>np2count := (np2count st)(np \<mapsto>
          (case np2count st np of None \<Rightarrow> 1 | Some c \<Rightarrow> c + 1))\<rparr>"

text \<open>
  Lines 119-121: the key of the noun phrase, the normalized text in which the mark
  character, when it occurs, is replaced by a space.
\<close>

definition span_key :: "(string \<Rightarrow> string) \<Rightarrow> (string \<Rightarrow> string \<Rightarrow> string list) \<Rightarrow> args
    \<Rightarrow> span \<Rightarrow> py_error + string" where
  "span_key stem spacy_lemmatizer a sp =
     (case spacy_normalizer stem spacy_lemmatizer (span_text sp) (Some (span_lemma sp)) of
        Inl e \<Rightarrow> Inl e
      | Inr norm \<Rightarrow> Inr (if py_contains (mark_char a) norm
                         then py_replace (mark_char a) '' '' norm else norm))"

text \<open>
  Lines 122-132: the key is recorded for the noun phrase, and the group and the
  representative of the key are updated. Reading a dictionary at a missing key
  raises \<open>KeyError\<close>.
\<close>

definition update_tables :: "string \<Rightarrow> string \<Rightarrow> state \<Rightarrow> py_error + state" where
  "update_tables np norm st =
     (let st2 = st\<lparr>np2id := (np2id st)(np \<mapsto> norm)\<rparr>;
          st3 = (if id2rep st2 norm = None
                 then st2\<lparr>id2rep := (id2rep st2)(norm \<mapsto> np)\<rparr> else st2)
      in case id2group st3 norm of
           Some g \<Rightarrow>
             (if np \<notin> set g
              then Inr (st3\<lparr>id2group := (id2group st3)(norm \<mapsto> g @ [np])\<rparr>)
              else (case np2count st3 np of
                      None \<Rightarrow> Inl KeyError
                    | Some c \<Rightarrow>
                       (case id2rep st3 norm of
                          None \<Rightarrow> Inl KeyError
                        | Some r \<Rightarrow>
                           (case np2count st3 r of
                              None \<Rightarrow> Inl KeyError
                            | Some cr \<Rightarrow>
                               (if c > cr
                                then Inr (st3\<lparr>id2rep := (id2rep st3)(norm \<mapsto> np)\<rparr>)
                                else Inr st3)))))
         | None \<Rightarrow>
             Inr (st3\<lparr>id2group := (id2group st3)(norm \<mapsto> [np]),
                      id2rep := (id2rep st3)(norm \<mapsto> np)\<rparr>))"

text \<open>
  Lines 114-134: the grouping branch for one noun phrase; the result is the marked
  text and the new dictionaries.
\<close>

definition group_np :: "(string \<Rightarrow> string) \<Rightarrow> (string \<Rightarrow> string \<Rightarrow> string list) \<Rightarrow> args
    \<Rightarrow> span \<Rightarrow> state \<Rightarrow> py_error + (string \<times> state)" where
  "group_np stem spacy_lemmatizer a sp st =
     (let np = span_text sp;
          st1 = count_np np st
      in case span_key stem spacy_lemmatizer a sp of
           Inl e \<Rightarrow> Inl e
         | Inr norm \<Rightarrow>
            (case update_tables np norm st1 of
               Inl e \<Rightarrow> Inl e
             | Inr st' \<Rightarrow> Inr (py_replace '' '' (mark_char a) norm @ mark_char a, st')))"

text \<open>Lines 111-140: what is written for the active span.\<close>

definition write_span :: "(string \<Rightarrow> string) \<Rightarrow> (string \<Rightarrow> string \<Rightarrow> string list) \<Rightarrow> args
    \<Rightarrow> span \<Rightarrow> state \<Rightarrow> py_error + state" where
  "write_span stem spacy_lemmatizer a sp st =
     (if length (span_text sp) > 1 \<and> span_lemma sp \<noteq> ''-PRON-''
      then
        (if grouping a
         then (case group_np stem spacy_lemmatizer a sp st of
                 Inl e \<Rightarrow> Inl e
               | Inr (text, st') \<Rightarrow> Inr (file_write (text @ '' '') st'))
         else Inr (file_write ((py_replace '' '' (mark_char a) (span_text sp) @ mark_char a) @ '' '') st))
      else Inr (file_write (span_text sp @ '' '') st))"

text \<open>
  The loop variables of one line: the active span (\<open>None\<close> when there is none), the
  spans still to come, and the flag \<open>spanWritten\<close>.
\<close>

record cursor =
  cur_span :: "span option"
  cur_spans :: "span list"
  spanWritten :: bool

text \<open>Lines 94-98 and 143-147: the next span is popped from the front of the list.\<close>

definition next_span :: "span list \<Rightarrow> cursor" where
  "next_span ss =
     (case ss of
        [] \<Rightarrow> \<lparr>cur_span = None, cur_spans = [], spanWritten = False\<rparr>
      | s # rest \<Rightarrow> \<lparr>cur_span = Some s, cur_spans = rest, spanWritten = False\<rparr>)"

text \<open>Lines 100-147: the body of the loop over the tokens of a line.\<close>

definition process_token :: "(string \<Rightarrow> string) \<Rightarrow> (string \<Rightarrow> string \<Rightarrow> string list) \<Rightarrow> args
    \<Rightarrow> token \<Rightarrow> cursor \<times> state \<Rightarrow> py_error + (cursor \<times> state)" where
  "process_token stem spacy_lemmatizer a tok cs =
     (let cur = fst cs; st = snd cs in
      case cur_span cur of
        None \<Rightarrow> Inr (cur, write_token tok st)
      | Some sp \<Rightarrow>
         (if tok_idx tok < start_char sp \<or> tok_idx tok \<ge> end_char sp
          then Inr (cur, write_token tok st)
          else
            (case (if \<not> spanWritten cur then write_span stem spacy_lemmatizer a sp st
                   else Inr st) of
               Inl e \<Rightarrow> Inl e
             | Inr st' \<Rightarrow>
                (if tok_idx tok + int (length (tok_text tok)) = end_char sp
                 then Inr (next_span (cur_spans cur), st')
                 else Inr (cur\<lparr>spanWritten := True\<rparr>, st')))))"

fun process_tokens :: "(string \<Rightarrow> string) \<Rightarrow> (string \<Rightarrow> string \<Rightarrow> string list) \<Rightarrow> args
    \<Rightarrow> token list \<Rightarrow> cursor \<times> state \<Rightarrow> py_error + (cursor \<times> state)" where
  "process_tokens stem spacy_lemmatizer a [] cs = Inr cs"
| "process_tokens stem spacy_lemmatizer a (tok # toks) cs =
     (case process_token stem spacy_lemmatizer a tok cs of
        Inl e \<Rightarrow> Inl e
      | Inr cs' \<Rightarrow> process_tokens stem spacy_lemmatizer a toks cs')"

text \<open>Lines 90-148: one parsed line.\<close>

definition process_doc :: "(string \<Rightarrow> string) \<Rightarrow> (string \<Rightarrow> string \<Rightarrow> string list) \<Rightarrow> args
    \<Rightarrow> doc \<Rightarrow> state \<Rightarrow> py_error + state" where
  "process_doc stem spacy_lemmatizer a d st =
     (case process_tokens stem spacy_lemmatizer a (doc_tokens d) (next_span (noun_chunks d), st) of
        Inl e \<Rightarrow> Inl e
      | Inr cs \<Rightarrow> Inr (file_write [CHR 0x0A] (snd cs)))"

text \<open>Line 89: the loop over the parsed lines of the corpus.\<close>

fun process_corpus :: "(string \<Rightarrow> string) \<Rightarrow> (string \<Rightarrow> string \<Rightarrow> string list) \<Rightarrow> args
    \<Rightarrow> doc list \<Rightarrow> state \<Rightarrow> py_error + state" where
  "process_corpus stem spacy_lemmatizer a [] st = Inr st"
| "process_corpus stem spacy_lemmatizer a (d # ds) st =
     (case process_doc stem spacy_lemmatizer a d st of
        Inl e \<Rightarrow> Inl e
      | Inr st' \<Rightarrow> process_corpus stem spacy_lemmatizer a ds st')"

section \<open>Notions used in the statements\<close>

text \<open>
  The character range of a token, from \<open>token.idx\<close> to \<open>token.idx + len(token.text)\<close>,
  has no position in common with the range of a span.
\<close>

definition token_outside :: "token \<Rightarrow> span \<Rightarrow> bool" where
  "token_outside tok sp =
     (tok_idx tok + int (length (tok_text tok)) \<le> start_char sp \<or> end_char sp \<le> tok_idx tok)"

text \<open>
  The line \<open>The climate change is real\<close> with its one noun chunk, and the options
  of a run without and with grouping.
\<close>

definition example1 :: doc where
  "example1 = \<lparr>doc_tokens =
       [\<lparr>tok_text = ''The'', tok_idx = 0\<rparr>, \<lparr>tok_text = ''climate'', tok_idx = 4\<rparr>,
        \<lparr>tok_text = ''change'', tok_idx = 12\<rparr>, \<lparr>tok_text = ''is'', tok_idx = 19\<rparr>,
        \<lparr>tok_text = ''real'', tok_idx = 22\<rparr>],
     noun_chunks =
       [\<lparr>start_char = 4, end_char = 18, span_text = ''climate change'',
         span_lemma = ''climate change''\<rparr>]\<rparr>"

definition plain_args :: args where
  "plain_args = \<lparr>mark_char = ''_'', grouping = False\<rparr>"

definition grouping_args :: args where
  "grouping_args = \<lparr>mark_char = ''_'', grouping = True\<rparr>"

text \<open>The contents of the output file after a run, or the error that stopped it.\<close>

definition file_of :: "py_error + state \<Rightarrow> py_error + string" where
  "file_of r = (case r of Inl e \<Rightarrow> Inl e | Inr st \<Rightarrow> Inr (marked_corpus_file st))"

text \<open>
  Following the words of the specification for the plain mode: every run of
  whitespace of the text is replaced by one copy of the marker.
\<close>

function mark_ws_runs :: "string \<Rightarrow> string \<Rightarrow> string" where
  "mark_ws_runs m [] = []"
| "mark_ws_runs m (c # cs) =
     (if is_space c then m @ mark_ws_runs m (dropWhile is_space cs)
      else c # mark_ws_runs m cs)"
  by pat_completeness auto
termination
  by (relation "measure (\<lambda>(m, s). length s)") (auto simp: le_imp_less_Suc length_dropWhile_le)

text \<open>The test of line 111 fails: the span is too short or its lemma is the pronoun placeholder.\<close>

definition rejected :: "span \<Rightarrow> bool" where
  "rejected sp = (length (span_text sp) \<le> 1 \<or> span_lemma sp = ''-PRON-'')"


text \<open>
  What holds of the dictionaries in every state the script reaches: \<open>id2rep\<close> and
  \<open>id2group\<close> have the same keys, the representative of a key is in its group, and
  every member of a group has a count.
\<close>

definition tables_ok :: "state \<Rightarrow> bool" where
  "tables_ok st =
     ((\<forall>k. (id2rep st k = None) = (id2group st k = None)) \<and>
      (\<forall>k g r. id2group st k = Some g \<longrightarrow> id2rep st k = Some r \<longrightarrow> r \<in> set g) \<and>
      (\<forall>k g v. id2group st k = Some g \<longrightarrow> v \<in> set g \<longrightarrow> np2count st v \<noteq> None))"

text \<open>The count of a phrase, \<open>0\<close> when it has none; the text written for a key.\<close>

definition count_of :: "(string \<rightharpoonup> nat) \<Rightarrow> string \<Rightarrow> nat" where
  "count_of m v = (case m v of None \<Rightarrow> 0 | Some c \<Rightarrow> c)"

definition marked_text :: "args \<Rightarrow> string \<Rightarrow> string" where
  "marked_text a k = py_replace '' '' (mark_char a) k @ mark_char a"

text \<open>
  The group and the representative of a key after \<open>update_tables\<close> has run for the
  phrase \<open>np\<close>, in terms of the dictionaries before.
\<close>

definition group_after :: "string list option \<Rightarrow> string \<Rightarrow> string list" where
  "group_after og np = (case og of None \<Rightarrow> [np] | Some g \<Rightarrow> if np \<in> set g then g else g @ [np])"

definition rep_after :: "state \<Rightarrow> string \<Rightarrow> string \<Rightarrow> string" where
  "rep_after st k np =
     (case id2rep st k of
        None \<Rightarrow> np
      | Some r \<Rightarrow>
         (case id2group st k of
            None \<Rightarrow> np
          | Some g \<Rightarrow>
             if np \<in> set g \<and> count_of (np2count st) r < count_of (np2count st) np
             then np else r))"

text \<open>
  Two lines with the noun chunk \<open>the leaves\<close>, whose lemma depends on the reading, a
  line with the noun chunk \<open>the leave\<close>, and the state after the corpus
  \<open>the leaves\<close> (lemma \<open>the leaf\<close>), \<open>the leaves\<close> (lemma \<open>the leaf\<close>), \<open>the leave\<close>.
\<close>

definition leaves_doc :: "string \<Rightarrow> doc" where
  "leaves_doc l = \<lparr>doc_tokens = [\<lparr>tok_text = ''the'', tok_idx = 0\<rparr>,
                                  \<lparr>tok_text = ''leaves'', tok_idx = 4\<rparr>],
                    noun_chunks = [\<lparr>start_char = 0, end_char = 10, span_text = ''the leaves'',
                                    span_lemma = l\<rparr>]\<rparr>"

definition leave_doc :: doc where
  "leave_doc = \<lparr>doc_tokens = [\<lparr>tok_text = ''the'', tok_idx = 0\<rparr>,
                               \<lparr>tok_text = ''leave'', tok_idx = 4\<rparr>],
                 noun_chunks = [\<lparr>start_char = 0, end_char = 9, span_text = ''the leave'',
                                 span_lemma = ''the leave''\<rparr>]\<rparr>"

definition leaves_state :: state where
  "leaves_state =
     \<lparr>np2id = [''the leaves'' \<mapsto> ''the leaf'', ''the leave'' \<mapsto> ''the leave''],
      id2group = [''the leaf'' \<mapsto> [''the leaves''], ''the leave'' \<mapsto> [''the leave'']],
      id2rep = [''the leaf'' \<mapsto> ''the leaves'', ''the leave'' \<mapsto> ''the leave''],
      np2count = [''the leaves'' \<mapsto> 2, ''the leave'' \<mapsto> 1],
      marked_corpus_file = ''the_leaf_ '' @ [CHR 0x0A] @ ''the_leaf_ '' @ [CHR 0x0A]
                             @ ''the_leave_ '' @ [CHR 0x0A]\<rparr>"













text \<open>
  Every phrase text has one key: the key of a span is \<open>K\<close> of its text, for the
  active span and the spans to come of a line, and for all noun chunks of a corpus.
\<close>

definition span_keyed :: "(string \<Rightarrow> string) \<Rightarrow> (string \<Rightarrow> string \<Rightarrow> string list) \<Rightarrow> args
    \<Rightarrow> (string \<Rightarrow> string) \<Rightarrow> span \<Rightarrow> bool" where
  "span_keyed stem spacy_lemmatizer a K sp =
     (span_key stem spacy_lemmatizer a sp = Inr (K (span_text sp)))"

definition cursor_keyed :: "(string \<Rightarrow> string) \<Rightarrow> (string \<Rightarrow> string \<Rightarrow> string list) \<Rightarrow> args
    \<Rightarrow> (string \<Rightarrow> string) \<Rightarrow> cursor \<Rightarrow> bool" where
  "cursor_keyed stem spacy_lemmatizer a K cur =
     ((case cur_span cur of None \<Rightarrow> True | Some sp \<Rightarrow> span_keyed stem spacy_lemmatizer a K sp)
      \<and> list_all (span_keyed stem spacy_lemmatizer a K) (cur_spans cur))"

definition keys_consistent :: "(string \<Rightarrow> string) \<Rightarrow> (string \<Rightarrow> string \<Rightarrow> string list) \<Rightarrow> args
    \<Rightarrow> (string \<Rightarrow> string) \<Rightarrow> doc list \<Rightarrow> bool" where
  "keys_consistent stem spacy_lemmatizer a K docs =
     list_all (\<lambda>d. list_all (span_keyed stem spacy_lemmatizer a K) (noun_chunks d)) docs"

text \<open>
  What holds of the dictionaries when every phrase text has one key: the members of
  the group of a key have that key, a counted phrase is in the group of its key, no
  count is zero, and no member of a group has a higher count than the
  representative.
\<close>

definition keyed :: "(string \<Rightarrow> string) \<Rightarrow> state \<Rightarrow> bool" where
  "keyed K st =
     (tables_ok st \<and>
      (\<forall>k g v. id2group st k = Some g \<longrightarrow> v \<in> set g \<longrightarrow> K v = k) \<and>
      (\<forall>v. np2count st v \<noteq> None \<longrightarrow> (\<exists>g. id2group st (K v) = Some g \<and> v \<in> set g)) \<and>
      (\<forall>v. np2count st v \<noteq> Some 0) \<and>
      (\<forall>k g r v. id2group st k = Some g \<longrightarrow> id2rep st k = Some r \<longrightarrow> v \<in> set g \<longrightarrow>
          count_of (np2count st) v \<le> count_of (np2count st) r))"

text \<open>
  Following the words of the specification: the variant of a group with the highest
  count, the first one in the order of the group among those of the same count.
\<close>

fun first_max :: "(string \<rightharpoonup> nat) \<Rightarrow> string list \<Rightarrow> string option" where
  "first_max cnt [] = None"
| "first_max cnt (v # vs) =
     (case first_max cnt vs of
        None \<Rightarrow> Some v
      | Some w \<Rightarrow> if count_of cnt v < count_of cnt w then Some w else Some v)"

text \<open>
  Two lines in which the noun chunks \<open>New York\<close> and \<open>NY\<close>, both with the lemma
  \<open>New York\<close>, occur three and five times, and the states after the first line and
  after both.
\<close>

definition ny_line1 :: doc where
  "ny_line1 =
     \<lparr>doc_tokens = [\<lparr>tok_text = ''New'', tok_idx = 0\<rparr>, \<lparr>tok_text = ''York'', tok_idx = 4\<rparr>,
                    \<lparr>tok_text = ''NY'', tok_idx = 9\<rparr>, \<lparr>tok_text = ''NY'', tok_idx = 12\<rparr>,
                    \<lparr>tok_text = ''New'', tok_idx = 15\<rparr>, \<lparr>tok_text = ''York'', tok_idx = 19\<rparr>],
      noun_chunks =
        [\<lparr>start_char = 0, end_char = 8, span_text = ''New York'', span_lemma = ''New York''\<rparr>,
         \<lparr>start_char = 9, end_char = 11, span_text = ''NY'', span_lemma = ''New York''\<rparr>,
         \<lparr>start_char = 12, end_char = 14, span_text = ''NY'', span_lemma = ''New York''\<rparr>,
         \<lparr>start_char = 15, end_char = 23, span_text = ''New York'', span_lemma = ''New York''\<rparr>]\<rparr>"

definition ny_line2 :: doc where
  "ny_line2 =
     \<lparr>doc_tokens = [\<lparr>tok_text = ''NY'', tok_idx = 0\<rparr>, \<lparr>tok_text = ''New'', tok_idx = 3\<rparr>,
                    \<lparr>tok_text = ''York'', tok_idx = 7\<rparr>, \<lparr>tok_text = ''NY'', tok_idx = 12\<rparr>,
                    \<lparr>tok_text = ''NY'', tok_idx = 15\<rparr>],
      noun_chunks =
        [\<lparr>start_char = 0, end_char = 2, span_text = ''NY'', span_lemma = ''New York''\<rparr>,
         \<lparr>start_char = 3, end_char = 11, span_text = ''New York'', span_lemma = ''New York''\<rparr>,
         \<lparr>start_char = 12, end_char = 14, span_text = ''NY'', span_lemma = ''New York''\<rparr>,
         \<lparr>start_char = 15, end_char = 17, span_text = ''NY'', span_lemma = ''New York''\<rparr>]\<rparr>"

definition ny_state1 :: state where
  "ny_state1 =
     \<lparr>np2id = [''New York'' \<mapsto> ''New York'', ''NY'' \<mapsto> ''New York''],
      id2group = [''New York'' \<mapsto> [''New York'', ''NY'']],
      id2rep = [''New York'' \<mapsto> ''NY''],
      np2count = [''New York'' \<mapsto> 2, ''NY'' \<mapsto> 2],
      marked_corpus_file = ''New_York_ New_York_ New_York_ New_York_ '' @ [CHR 0x0A]\<rparr>"

definition ny_state2 :: state where
  "ny_state2 =
     \<lparr>np2id = [''New York'' \<mapsto> ''New York'', ''NY'' \<mapsto> ''New York''],
      id2group = [''New York'' \<mapsto> [''New York'', ''NY'']],
      id2rep = [''New York'' \<mapsto> ''NY''],
      np2count = [''New York'' \<mapsto> 3, ''NY'' \<mapsto> 5],
      marked_corpus_file = ''New_York_ New_York_ New_York_ New_York_ '' @ [CHR 0x0A]
                             @ ''New_York_ New_York_ New_York_ New_York_ '' @ [CHR 0x0A]\<rparr>"

text \<open>
  Four lines with the noun chunks \<open>cats\<close>, \<open>cat\<close>, \<open>cat\<close>, \<open>cats\<close>, all with the
  lemma \<open>cat\<close>, and the state after them.
\<close>

definition cats_doc :: doc where
  "cats_doc = \<lparr>doc_tokens = [\<lparr>tok_text = ''cats'', tok_idx = 0\<rparr>],
                noun_chunks = [\<lparr>start_char = 0, end_char = 4, span_text = ''cats'',
                                span_lemma = ''cat''\<rparr>]\<rparr>"

definition cat_doc :: doc where
  "cat_doc = \<lparr>doc_tokens = [\<lparr>tok_text = ''cat'', tok_idx = 0\<rparr>],
               noun_chunks = [\<lparr>start_char = 0, end_char = 3, span_text = ''cat'',
                               span_lemma = ''cat''\<rparr>]\<rparr>"

definition cat_corpus :: "doc list" where
  "cat_corpus = [cats_doc, cat_doc, cat_doc, cats_doc]"

definition cat_state :: state where
  "cat_state =
     \<lparr>np2id = [''cats'' \<mapsto> ''cat'', ''cat'' \<mapsto> ''cat''],
      id2group = [''cat'' \<mapsto> [''cats'', ''cat'']],
      id2rep = [''cat'' \<mapsto> ''cat''],
      np2count = [''cats'' \<mapsto> 2, ''cat'' \<mapsto> 2],
      marked_corpus_file = ''cat_ '' @ [CHR 0x0A] @ ''cat_ '' @ [CHR 0x0A]
                             @ ''cat_ '' @ [CHR 0x0A] @ ''cat_ '' @ [CHR 0x0A]\<rparr>"

text \<open>
  The lines with \<open>the leaves\<close> and \<open>the leave\<close>, followed by \<open>the leaves\<close> with the
  lemma \<open>the leave\<close>, and the state after them.
\<close>

definition leaves_corpus :: "doc list" where
  "leaves_corpus =
     [leaves_doc ''the leaf'', leaves_doc ''the leaf'', leave_doc, leaves_doc ''the leave'']"

definition leaves_state2 :: state where
  "leaves_state2 =
     \<lparr>np2id = [''the leaves'' \<mapsto> ''the leave'', ''the leave'' \<mapsto> ''the leave''],
      id2group = [''the leaf'' \<mapsto> [''the leaves''],
                  ''the leave'' \<mapsto> [''the leave'', ''the leaves'']],
      id2rep = [''the leaf'' \<mapsto> ''the leaves'', ''the leave'' \<mapsto> ''the leave''],
      np2count = [''the leaves'' \<mapsto> 3, ''the leave'' \<mapsto> 1],
      marked_corpus_file = ''the_leaf_ '' @ [CHR 0x0A] @ ''the_leaf_ '' @ [CHR 0x0A]
                             @ ''the_leave_ '' @ [CHR 0x0A] @ ''the_leave_ '' @ [CHR 0x0A]\<rparr>"

text \<open>The corpus of the two lines with \<open>New York\<close> and \<open>NY\<close>.\<close>

definition ny_corpus :: "doc list" where
  "ny_corpus = [ny_line1, ny_line2]"

section \<open>Properties of the string operations\<close>

lemma split_at_not_Nil: "split_at P s \<noteq> []"
  by (induction s) (auto split: list.splits)

lemma split_at_none: "\<not> list_ex P s \<Longrightarrow> split_at P s = [s]"
  by (induction s) (auto split: list.splits)

lemma py_split_dropWhile: "py_split (dropWhile is_space s) = py_split s"
  by (induction s) (auto simp: py_split_def)

lemma py_strip_last:
  assumes "s \<noteq> []" and "\<not> is_space (last s)"
  shows "py_strip s = dropWhile is_space s"
proof -
  have ne: "dropWhile is_space s \<noteq> []"
    using assms last_in_set by (auto simp: dropWhile_eq_Nil_conv)
  have "last (dropWhile is_space s) = last s"
    using ne by (induction s) (auto split: if_splits)
  then have "\<not> is_space (hd (rev (dropWhile is_space s)))"
    using ne assms(2) by (simp add: hd_rev)
  then have "dropWhile is_space (rev (dropWhile is_space s)) = rev (dropWhile is_space s)"
    using ne by (cases "rev (dropWhile is_space s)") auto
  then show ?thesis by (simp add: py_strip_def)
qed

lemma py_strip_Nil_iff: "(py_strip s = []) = list_all is_space s"
proof
  assume "py_strip s = []"
  then have a: "\<forall>x \<in> set (dropWhile is_space s). is_space x"
    by (simp add: py_strip_def dropWhile_eq_Nil_conv)
  have "dropWhile is_space s = []"
  proof (rule ccontr)
    assume n: "dropWhile is_space s \<noteq> []"
    then have "\<not> is_space (hd (dropWhile is_space s))" by (rule hd_dropWhile)
    then show False using a n by simp
  qed
  then show "list_all is_space s"
    by (simp add: dropWhile_eq_Nil_conv list_all_iff)
next
  assume "list_all is_space s"
  then show "py_strip s = []"
    by (auto simp: py_strip_def list_all_iff dest: set_dropWhileD)
qed

lemma py_endswith_last: "s \<noteq> [] \<Longrightarrow> last s = c \<Longrightarrow> py_endswith s [c]"
  by (cases s rule: rev_cases) (auto simp: py_endswith_def)

section \<open>The normalizer\<close>

text \<open>
  Claim C6. A phrase that ends in the letter \<open>S\<close>, has no lower-case character and,
  once stripped, no whitespace (a single word) is returned unchanged by
  \<open>spacy_normalizer\<close>, whatever the lemma argument, the stemmer and the lemmatizer
  are: nothing is split, lemmatized or stemmed.
\<close>

theorem spacy_normalizer_guard:
  assumes "text \<noteq> []" and "last text = CHR ''S''"
    and "\<not> list_ex is_lower text"
    and "\<not> list_ex is_space (py_strip text)"
  shows "spacy_normalizer stem spacy_lemmatizer text lemma = Inr text"
proof -
  have S: "is_upper CHR ''S''" "\<not> is_space CHR ''S''"
    by (simp_all add: is_upper_def is_space_def)
  have mem: "CHR ''S'' \<in> set text" using assms(1,2) last_in_set by metis
  have up: "py_isupper text"
    using mem assms(3) S(1) by (auto simp: py_isupper_def list_ex_iff)
  have e: "py_endswith text ''S''" using assms(1,2) by (rule py_endswith_last)
  have st: "py_strip text = dropWhile is_space text"
    using assms(1,2) S(2) by (simp add: py_strip_last)
  have ne: "dropWhile is_space text \<noteq> []"
    using mem S(2) by (auto simp: dropWhile_eq_Nil_conv)
  have "py_split text = py_split (dropWhile is_space text)"
    by (simp add: py_split_dropWhile)
  also have "\<dots> = [dropWhile is_space text]"
    using assms(4) ne unfolding st by (simp add: py_split_def split_at_none)
  finally have sp: "length (py_split text) = 1" by simp
  show ?thesis using up e sp by (simp add: spacy_normalizer_def)
qed

theorem spacy_normalizer_guard_witness:
  "spacy_normalizer (\<lambda>s. s) (\<lambda>t p. [t]) ''NPS'' (Some ''np'') = Inr ''NPS''
   \<and> spacy_normalizer (\<lambda>s. s) (\<lambda>t p. [t]) [CHR 0xA0, CHR 0xC9, CHR ''S''] None
       = Inr [CHR 0xA0, CHR 0xC9, CHR ''S'']"
proof -
  have h: "\<not> list_ex is_lower ''NPS''" "\<not> list_ex is_space (py_strip ''NPS'')"
    by (simp_all add: is_lower_def is_space_def py_strip_def)
  have g: "\<not> list_ex is_lower [CHR 0xA0, CHR 0xC9, CHR ''S'']"
    "\<not> list_ex is_space (py_strip [CHR 0xA0, CHR 0xC9, CHR ''S''])"
    by (simp_all add: is_lower_def is_space_def py_strip_def)
  show ?thesis
    using spacy_normalizer_guard [OF _ _ h, of "\<lambda>s. s" "\<lambda>t p. [t]" "Some ''np''"]
      spacy_normalizer_guard [OF _ _ g, of "\<lambda>s. s" "\<lambda>t p. [t]" None]
    by simp
qed

text \<open>
  Claim C9. Outside the guard case, with a lemma that is not empty, the result of
  \<open>spacy_normalizer\<close> is the stems of the pieces of the lemma between single spaces,
  joined by single spaces. The phrase text does not occur in the result, and the
  lemmatizer is not called.
\<close>

theorem spacy_normalizer_lemma:
  assumes "lemma \<noteq> []"
    and "\<not> (py_isupper text \<and> py_endswith text ''S'' \<and> length (py_split text) = 1)"
  shows "spacy_normalizer stem spacy_lemmatizer text (Some lemma)
       = Inr (py_join '' '' (map stem (py_split_space lemma)))"
  using assms by (auto simp: spacy_normalizer_def Let_def)

text \<open>
  The text \<open>a-b c\<close> with the lemma \<open>x  y\<close>, and the text of the micro sign (U+00B5)
  and \<open>S\<close>, which is not upper-case for Python, with the lemma \<open>micro siemens\<close>.
\<close>

theorem spacy_normalizer_lemma_witness:
  "spacy_normalizer (\<lambda>s. s @ ''!'') (\<lambda>t p. [t]) ''a-b c'' (Some ''x  y'') = Inr ''x! ! y!''
   \<and> spacy_normalizer (\<lambda>s. s @ ''!'') (\<lambda>t p. [t]) [CHR 0xB5, CHR ''S''] (Some ''micro siemens'')
       = Inr ''micro! siemens!''"
proof -
  have h: "\<not> (py_isupper ''a-b c'' \<and> py_endswith ''a-b c'' ''S''
               \<and> length (py_split ''a-b c'') = 1)"
    by (simp add: py_endswith_def)
  have g: "\<not> (py_isupper [CHR 0xB5, CHR ''S''] \<and> py_endswith [CHR 0xB5, CHR ''S''] ''S''
               \<and> length (py_split [CHR 0xB5, CHR ''S'']) = 1)"
    by (simp add: py_isupper_def is_lower_def)
  show ?thesis
    using spacy_normalizer_lemma [OF _ h, of "''x  y''" "\<lambda>s. s @ ''!''" "\<lambda>t p. [t]"]
      spacy_normalizer_lemma [OF _ g, of "''micro siemens''" "\<lambda>s. s @ ''!''" "\<lambda>t p. [t]"]
    by (simp add: py_split_space_def)
qed

section \<open>Tokens outside the active span\<close>

text \<open>
  Claim C2. When there is no active span, or the character range of the token, from
  \<open>token.idx\<close> to \<open>token.idx + len(token.text)\<close>, has no position in common with the
  range of the active span, the text of the token is written as it is, followed by
  one space, and nothing is written for a token all of whose characters are
  whitespace. The active span, the flag and the dictionaries are left as they were.
  With an active span the token has at least one character, as every token of spaCy
  has.
\<close>

theorem token_outside_span:
  assumes "case cur_span cur of None \<Rightarrow> True
           | Some sp \<Rightarrow> tok_text tok \<noteq> [] \<and> token_outside tok sp"
  shows "process_token stem spacy_lemmatizer a tok (cur, st) =
           Inr (cur, if list_all is_space (tok_text tok) then st
                     else st\<lparr>marked_corpus_file := marked_corpus_file st @ tok_text tok @ '' ''\<rparr>)"
proof (cases "cur_span cur")
  case None
  then show ?thesis
    using py_strip_Nil_iff [of "tok_text tok"]
    by (simp add: process_token_def write_token_def file_write_def)
next
  case (Some sp)
  then have "0 < int (length (tok_text tok))" and "token_outside tok sp"
    using assms by simp_all
  then have "tok_idx tok < start_char sp \<or> tok_idx tok \<ge> end_char sp"
    unfolding token_outside_def by linarith
  then show ?thesis
    using Some py_strip_Nil_iff [of "tok_text tok"]
    by (simp add: process_token_def write_token_def file_write_def)
qed

text \<open>
  The word \<open>The\<close> before the span is written with a space; for a token that is a
  tabulation and a no-break space (U+00A0) after the span nothing is written.
\<close>

theorem token_outside_span_witness:
  "process_token (\<lambda>s. s) (\<lambda>t p. [t]) plain_args \<lparr>tok_text = ''The'', tok_idx = 0\<rparr>
        (\<lparr>cur_span = Some \<lparr>start_char = 4, end_char = 18, span_text = ''climate change'',
            span_lemma = ''climate change''\<rparr>, cur_spans = [], spanWritten = False\<rparr>, init_state)
     = Inr (\<lparr>cur_span = Some \<lparr>start_char = 4, end_char = 18, span_text = ''climate change'',
            span_lemma = ''climate change''\<rparr>, cur_spans = [], spanWritten = False\<rparr>,
            init_state\<lparr>marked_corpus_file := ''The ''\<rparr>)
   \<and> process_token (\<lambda>s. s) (\<lambda>t p. [t]) plain_args
        \<lparr>tok_text = [CHR 0x09, CHR 0xA0], tok_idx = 18\<rparr>
        (\<lparr>cur_span = Some \<lparr>start_char = 4, end_char = 18, span_text = ''climate change'',
            span_lemma = ''climate change''\<rparr>, cur_spans = [], spanWritten = False\<rparr>, init_state)
     = Inr (\<lparr>cur_span = Some \<lparr>start_char = 4, end_char = 18, span_text = ''climate change'',
            span_lemma = ''climate change''\<rparr>, cur_spans = [], spanWritten = False\<rparr>, init_state)"
  using token_outside_span [where cur =
      "\<lparr>cur_span = Some \<lparr>start_char = 4, end_char = 18, span_text = ''climate change'',
            span_lemma = ''climate change''\<rparr>, cur_spans = [], spanWritten = False\<rparr>"
      and tok = "\<lparr>tok_text = ''The'', tok_idx = 0\<rparr>" and stem = "\<lambda>s. s"
      and spacy_lemmatizer = "\<lambda>t p. [t]" and a = plain_args and st = init_state]
    token_outside_span [where cur =
      "\<lparr>cur_span = Some \<lparr>start_char = 4, end_char = 18, span_text = ''climate change'',
            span_lemma = ''climate change''\<rparr>, cur_spans = [], spanWritten = False\<rparr>"
      and tok = "\<lparr>tok_text = [CHR 0x09, CHR 0xA0], tok_idx = 18\<rparr>" and stem = "\<lambda>s. s"
      and spacy_lemmatizer = "\<lambda>t p. [t]" and a = plain_args and st = init_state]
  by (simp add: token_outside_def is_space_def init_state_def)

section \<open>Replacing one character; the normalizer returns\<close>

lemma py_replace_single:
  "py_replace [c] new s = concat (map (\<lambda>x. if x = c then new else [x]) s)"
  by (induction s) (auto simp: py_startswith_def)





section \<open>The update of the grouping dictionaries\<close>

lemma update_tables_Inr:
  assumes "update_tables np k st = Inr st'"
  shows "np2id st' = (np2id st)(np \<mapsto> k)
       \<and> id2group st' = (id2group st)(k \<mapsto> group_after (id2group st k) np)
       \<and> id2rep st' = (id2rep st)(k \<mapsto> rep_after st k np)
       \<and> np2count st' = np2count st
       \<and> marked_corpus_file st' = marked_corpus_file st"
proof (cases "id2group st k")
  case None
  then show ?thesis
    using assms
    by (cases "id2rep st k")
       (auto simp: update_tables_def Let_def group_after_def rep_after_def)
next
  case (Some g)
  show ?thesis
  proof (cases "np \<in> set g")
    case False
    then show ?thesis
      using assms Some
      by (cases "id2rep st k")
         (auto simp: update_tables_def Let_def group_after_def rep_after_def fun_upd_idem)
  next
    case True
    show ?thesis
    proof (cases "id2rep st k")
      case None
      then show ?thesis
        using assms Some True
        by (auto simp: update_tables_def Let_def group_after_def rep_after_def fun_upd_idem
                 split: option.splits if_splits)
    next
      case r: (Some r)
      then show ?thesis
        using assms Some True
        by (auto simp: update_tables_def Let_def group_after_def rep_after_def count_of_def
                       fun_upd_idem
                 split: option.splits if_splits)
    qed
  qed
qed

lemma count_np_simps [simp]:
  "np2count (count_np np st) = (np2count st)(np \<mapsto> count_of (np2count st) np + 1)"
  "np2id (count_np np st) = np2id st"
  "id2group (count_np np st) = id2group st"
  "id2rep (count_np np st) = id2rep st"
  "marked_corpus_file (count_np np st) = marked_corpus_file st"
  by (auto simp: count_np_def count_of_def split: option.splits)

lemma group_np_error:
  "span_key stem spacy_lemmatizer a sp = Inl e \<Longrightarrow> group_np stem spacy_lemmatizer a sp st = Inl e"
  by (simp add: group_np_def Let_def)

lemma group_np_Inr:
  assumes "group_np stem spacy_lemmatizer a sp st = Inr (t, st')"
  shows "\<exists>k. span_key stem spacy_lemmatizer a sp = Inr k \<and> t = marked_text a k
     \<and> update_tables (span_text sp) k (count_np (span_text sp) st) = Inr st'"
  using assms
  by (auto simp: group_np_def Let_def marked_text_def split: sum.splits)

lemma tables_ok_init: "tables_ok init_state"
  by (simp add: tables_ok_def init_state_def)

lemma tables_ok_file_write: "tables_ok (file_write s st) = tables_ok st"
  by (simp add: tables_ok_def file_write_def)

lemma update_tables_total:
  assumes "tables_ok st" and "np2count st np \<noteq> None"
  shows "\<exists>st'. update_tables np k st = Inr st'"
proof (cases "id2group st k")
  case None
  then show ?thesis by (simp add: update_tables_def Let_def)
next
  case (Some g)
  then obtain r where r: "id2rep st k = Some r" "r \<in> set g"
    using assms(1) by (cases "id2rep st k") (auto simp: tables_ok_def)
  have "np2count st r \<noteq> None"
    using assms(1) Some r unfolding tables_ok_def by blast
  then obtain cr where cr: "np2count st r = Some cr" by auto
  obtain c where c: "np2count st np = Some c" using assms(2) by auto
  show ?thesis
    using Some r cr c by (simp add: update_tables_def Let_def)
qed

lemma tables_ok_count_np: "tables_ok st \<Longrightarrow> tables_ok (count_np np st)"
  by (simp add: tables_ok_def)

lemma group_np_total:
  assumes "tables_ok st" and "span_key stem spacy_lemmatizer a sp = Inr k"
  shows "\<exists>st'. group_np stem spacy_lemmatizer a sp st = Inr (marked_text a k, st')"
proof -
  have "np2count (count_np (span_text sp) st) (span_text sp) \<noteq> None" by simp
  then obtain st' where "update_tables (span_text sp) k (count_np (span_text sp) st) = Inr st'"
    using update_tables_total [OF tables_ok_count_np [OF assms(1)]] by blast
  then show ?thesis using assms(2) by (simp add: group_np_def Let_def marked_text_def)
qed

lemma tables_ok_update_tables:
  assumes "tables_ok st" and "np2count st np \<noteq> None" and "update_tables np k st = Inr st'"
  shows "tables_ok st'"
proof -
  note u = update_tables_Inr [OF assms(3)]
  have a: "\<forall>k'. (id2rep st' k' = None) = (id2group st' k' = None)"
    using u assms(1) by (simp add: tables_ok_def)
  have b: "rep_after st k np \<in> set (group_after (id2group st k) np)"
    using assms(1)
    by (auto simp: rep_after_def group_after_def tables_ok_def split: option.splits)
  have c: "\<forall>v \<in> set (group_after (id2group st k) np). np2count st v \<noteq> None"
    using assms(1,2) by (auto simp: group_after_def tables_ok_def split: option.splits if_splits)
  show ?thesis
    unfolding tables_ok_def
  proof (intro conjI allI impI)
    fix k' show "(id2rep st' k' = None) = (id2group st' k' = None)" using a by simp
  next
    fix k' g r assume "id2group st' k' = Some g" "id2rep st' k' = Some r"
    then show "r \<in> set g"
      using u b assms(1) by (cases "k' = k") (auto simp: tables_ok_def)
  next
    fix k' g v assume "id2group st' k' = Some g" "v \<in> set g"
    then show "np2count st' v \<noteq> None"
      using u c assms(1) by (cases "k' = k") (auto simp: tables_ok_def)
  qed
qed

lemma tables_ok_group_np:
  assumes "tables_ok st" and "group_np stem spacy_lemmatizer a sp st = Inr (t, st')"
  shows "tables_ok st'"
proof -
  obtain k where k: "update_tables (span_text sp) k (count_np (span_text sp) st) = Inr st'"
    using group_np_Inr [OF assms(2)] by blast
  have "np2count (count_np (span_text sp) st) (span_text sp) \<noteq> None" by simp
  then show ?thesis
    using tables_ok_update_tables [OF tables_ok_count_np [OF assms(1)] _ k] by blast
qed

section \<open>What is written for a span\<close>

lemma example1_plain:
  "process_doc stem spacy_lemmatizer plain_args example1 init_state
   = Inr (init_state\<lparr>marked_corpus_file := ''The climate_change_ is real '' @ [CHR 0x0A]\<rparr>)"
  by (simp add: process_doc_def example1_def next_span_def process_token_def write_span_def
     write_token_def file_write_def py_strip_def is_space_def py_startswith_def init_state_def
     plain_args_def)

lemma write_span_rejected:
  "rejected sp \<Longrightarrow> write_span stem spacy_lemmatizer a sp st = Inr (file_write (span_text sp @ '' '') st)"
  by (auto simp: write_span_def rejected_def)

lemma write_span_plain:
  "\<not> rejected sp \<Longrightarrow> \<not> grouping a \<Longrightarrow>
   write_span stem spacy_lemmatizer a sp st
     = Inr (file_write (concat (map (\<lambda>c. if c = CHR '' '' then mark_char a else [c]) (span_text sp))
                         @ mark_char a @ '' '') st)"
  by (auto simp: write_span_def rejected_def py_replace_single)

lemma write_span_grouping:
  "\<not> rejected sp \<Longrightarrow> grouping a \<Longrightarrow>
   write_span stem spacy_lemmatizer a sp st
     = (case group_np stem spacy_lemmatizer a sp st of
          Inl e \<Rightarrow> Inl e
        | Inr (t, st') \<Rightarrow> Inr (file_write (t @ '' '') st'))"
  by (auto simp: write_span_def rejected_def)

section \<open>Marking in plain mode\<close>

text \<open>
  Claim C3, as amended. Without grouping, for a span that is not rejected, what is
  written is the text of the span in which every single space character is replaced
  by the mark character (other whitespace is kept, and a run of \<open>n\<close> spaces gives
  \<open>n\<close> marks), then the mark character and one space. For the line
  \<open>The climate change is real\<close> with the noun chunk \<open>climate change\<close> the line written
  is \<open>The climate_change_ is real\<close>, one space, and the newline: every token and
  every span is followed by a space, the last one too.
\<close>

theorem plain_mode_marking:
  assumes "\<not> grouping a" and "length (span_text sp) > 1" and "span_lemma sp \<noteq> ''-PRON-''"
  shows "write_span stem spacy_lemmatizer a sp st
           = Inr (st\<lparr>marked_corpus_file := marked_corpus_file st
                    @ concat (map (\<lambda>c. if c = CHR '' '' then mark_char a else [c]) (span_text sp))
                    @ mark_char a @ '' ''\<rparr>)
         \<and> file_of (process_doc stem spacy_lemmatizer plain_args example1 init_state)
           = Inr (''The climate_change_ is real '' @ [CHR 0x0A])"
proof -
  have "\<not> rejected sp" using assms(2,3) by (simp add: rejected_def)
  then show ?thesis
    using assms(1) by (simp add: write_span_plain file_write_def example1_plain file_of_def)
qed

theorem plain_mode_marking_witness:
  "\<not> grouping plain_args
   \<and> length (span_text \<lparr>start_char = 4, end_char = 18, span_text = ''climate change'',
                           span_lemma = ''climate change''\<rparr>) > 1
   \<and> span_lemma \<lparr>start_char = 4, end_char = 18, span_text = ''climate change'',
                   span_lemma = ''climate change''\<rparr> \<noteq> ''-PRON-''
   \<and> write_span (\<lambda>s. s) (\<lambda>t p. [t]) plain_args
        \<lparr>start_char = 4, end_char = 18, span_text = ''climate change'',
          span_lemma = ''climate change''\<rparr> init_state
       = Inr (init_state\<lparr>marked_corpus_file := ''climate_change_ ''\<rparr>)"
  using plain_mode_marking [where a = plain_args and stem = "\<lambda>s. s"
      and spacy_lemmatizer = "\<lambda>t p. [t]" and st = init_state
      and sp = "\<lparr>start_char = 4, end_char = 18, span_text = ''climate change'',
                  span_lemma = ''climate change''\<rparr>"]
  by (simp add: plain_args_def init_state_def)

text \<open>
  The claim as it is written fails twice: the line of the example ends with a space
  before the newline, and the two spaces of \<open>a  b\<close> give two marks, not one for the
  run.
\<close>

theorem plain_mode_marking_counterexample:
  "file_of (process_doc (\<lambda>s. s) (\<lambda>t p. [t]) plain_args example1 init_state)
     \<noteq> Inr (''The climate_change_ is real'' @ [CHR 0x0A])
   \<and> file_of (write_span (\<lambda>s. s) (\<lambda>t p. [t]) plain_args
        \<lparr>start_char = 0, end_char = 4, span_text = ''a  b'', span_lemma = ''a  b''\<rparr> init_state)
     \<noteq> Inr (mark_ws_runs ''_'' ''a  b'' @ ''_'' @ '' '')"
proof -
  have "file_of (process_doc (\<lambda>s. s) (\<lambda>t p. [t]) plain_args example1 init_state)
          = Inr (''The climate_change_ is real '' @ [CHR 0x0A])"
    by (simp add: example1_plain file_of_def)
  moreover have "file_of (write_span (\<lambda>s. s) (\<lambda>t p. [t]) plain_args
        \<lparr>start_char = 0, end_char = 4, span_text = ''a  b'', span_lemma = ''a  b''\<rparr> init_state)
          = Inr ''a__b_ ''"
    by (simp add: file_of_def write_span_def file_write_def py_startswith_def
          init_state_def plain_args_def)
  moreover have "mark_ws_runs ''_'' ''a  b'' = ''a_b''"
    by (simp add: is_space_def)
  ultimately show ?thesis by simp
qed

section \<open>Rejected and accepted spans\<close>

lemma py_replace_space_single:
  "py_replace [c] '' '' s = map (\<lambda>x. if x = c then CHR '' '' else x) s"
  by (induction s) (auto simp: py_startswith_def)




section \<open>The first insertion of a variant into a group\<close>

lemmas eval_defs = process_doc_def next_span_def process_token_def write_span_def
  write_token_def file_write_def py_strip_def is_space_def py_startswith_def init_state_def
  group_np_def count_np_def span_key_def update_tables_def spacy_normalizer_def
  py_isupper_def is_upper_def is_lower_def py_endswith_def py_split_def py_split_space_def
  Let_def

lemma span_key_leaves:
  "span_key (\<lambda>s. s) (\<lambda>t p. [t]) grouping_args
     \<lparr>start_char = 0, end_char = 10, span_text = ''the leaves'', span_lemma = ''the leave''\<rparr>
   = Inr ''the leave''"
  by (simp add: eval_defs grouping_args_def)

lemma leaves_state_reached:
  "process_corpus (\<lambda>s. s) (\<lambda>t p. [t]) grouping_args
     [leaves_doc ''the leaf'', leaves_doc ''the leaf'', leave_doc] init_state = Inr leaves_state"
  by (simp add: eval_defs grouping_args_def leaves_doc_def leave_doc_def leaves_state_def
        numeral_2_eq_2)

text \<open>
  Claim C10. For a noun phrase whose key is already in the dictionaries, the update
  either appends the phrase to the group of the key or compares its count with the
  count of the representative, never both. When the phrase is not yet in the group
  it is appended and \<open>id2rep\<close> is left as it was, whatever the counts are: its count
  may already be above the count of the representative, when the same text had a
  different key before. When the phrase is in the group, the group is left as it was.
\<close>

theorem first_insertion_keeps_representative:
  assumes "span_key stem spacy_lemmatizer a sp = Inr k"
    and "id2group st k = Some g" and "id2rep st k = Some r"
  shows "(span_text sp \<notin> set g \<longrightarrow>
            (\<exists>st'. group_np stem spacy_lemmatizer a sp st = Inr (marked_text a k, st')
               \<and> id2rep st' = id2rep st
               \<and> id2group st' = (id2group st)(k \<mapsto> g @ [span_text sp])
               \<and> np2count st' (span_text sp)
                   = Some (count_of (np2count st) (span_text sp) + 1)))
       \<and> (span_text sp \<in> set g \<longrightarrow>
            (\<forall>t st'. group_np stem spacy_lemmatizer a sp st = Inr (t, st')
               \<longrightarrow> id2group st' = id2group st))"
proof (intro conjI impI allI)
  assume new: "span_text sp \<notin> set g"
  let ?st1 = "count_np (span_text sp) st"
  obtain st' where u: "update_tables (span_text sp) k ?st1 = Inr st'"
    using assms(2,3) new by (cases "id2rep st k") (auto simp: update_tables_def Let_def)
  have g: "group_np stem spacy_lemmatizer a sp st = Inr (marked_text a k, st')"
    using assms(1) u by (simp add: group_np_def Let_def marked_text_def)
  note r = update_tables_Inr [OF u]
  have "rep_after ?st1 k (span_text sp) = r"
    using assms(2,3) new by (simp add: rep_after_def)
  then have "id2rep st' = id2rep st"
    using r assms(3) by (simp add: fun_upd_idem)
  moreover have "id2group st' = (id2group st)(k \<mapsto> g @ [span_text sp])"
    using r assms(2) new by (simp add: group_after_def)
  moreover have "np2count st' (span_text sp) = Some (count_of (np2count st) (span_text sp) + 1)"
    using r by simp
  ultimately show "\<exists>st'. group_np stem spacy_lemmatizer a sp st = Inr (marked_text a k, st')
               \<and> id2rep st' = id2rep st
               \<and> id2group st' = (id2group st)(k \<mapsto> g @ [span_text sp])
               \<and> np2count st' (span_text sp)
                   = Some (count_of (np2count st) (span_text sp) + 1)"
    using g by blast
next
  fix t st'
  assume old: "span_text sp \<in> set g"
    and g: "group_np stem spacy_lemmatizer a sp st = Inr (t, st')"
  obtain k' where k': "span_key stem spacy_lemmatizer a sp = Inr k'"
    and u: "update_tables (span_text sp) k' (count_np (span_text sp) st) = Inr st'"
    using group_np_Inr [OF g] by blast
  have "k' = k" using k' assms(1) by simp
  then show "id2group st' = id2group st"
    using update_tables_Inr [OF u] assms(2) old by (simp add: group_after_def fun_upd_idem)
qed

theorem first_insertion_keeps_representative_witness:
  "span_key (\<lambda>s. s) (\<lambda>t p. [t]) grouping_args
     \<lparr>start_char = 0, end_char = 10, span_text = ''the leaves'', span_lemma = ''the leave''\<rparr>
     = Inr ''the leave''
   \<and> id2group leaves_state ''the leave'' = Some [''the leave'']
   \<and> id2rep leaves_state ''the leave'' = Some ''the leave''
   \<and> np2count leaves_state ''the leave'' = Some 1
   \<and> ''the leaves'' \<notin> set [''the leave'']
   \<and> (\<exists>st'. group_np (\<lambda>s. s) (\<lambda>t p. [t]) grouping_args
          \<lparr>start_char = 0, end_char = 10, span_text = ''the leaves'',
            span_lemma = ''the leave''\<rparr> leaves_state = Inr (''the_leave_'', st')
        \<and> id2rep st' ''the leave'' = Some ''the leave''
        \<and> id2group st' ''the leave'' = Some [''the leave'', ''the leaves'']
        \<and> np2count st' ''the leaves'' = Some 3)"
proof -
  have s: "id2group leaves_state ''the leave'' = Some [''the leave'']"
    "id2rep leaves_state ''the leave'' = Some ''the leave''"
    "np2count leaves_state ''the leave'' = Some 1"
    "count_of (np2count leaves_state) ''the leaves'' = 2"
    "marked_text grouping_args ''the leave'' = ''the_leave_''"
    by (simp_all add: leaves_state_def count_of_def marked_text_def grouping_args_def
          py_startswith_def)
  show ?thesis
    using first_insertion_keeps_representative [OF span_key_leaves s(1) s(2)] s span_key_leaves
    by auto
qed

section \<open>The mark character inside a normalized text\<close>

lemma process_token_total:
  assumes "\<exists>st'. write_span stem spacy_lemmatizer a sp st = Inr st'"
    and "cur_span cur = Some sp"
  shows "\<exists>cs'. process_token stem spacy_lemmatizer a tok (cur, st) = Inr cs'"
  using assms by (auto simp: process_token_def Let_def)

text \<open>
  Claim C7. With grouping, when the mark character occurs in the normalized text of
  an accepted span, the key that is stored in \<open>np2id\<close> and \<open>id2group\<close> and that is
  encoded for the output is the normalized text in which the occurrences of the mark
  character are replaced by a space (for a mark of one character: every such
  character). No error is returned: the span is written, and the step of the loop
  for any token returns a result, so that the line goes on.
\<close>

theorem marker_collision_recovered:
  assumes "grouping a" and "\<not> rejected sp" and "tables_ok st"
    and "spacy_normalizer stem spacy_lemmatizer (span_text sp) (Some (span_lemma sp)) = Inr norm"
    and "py_contains (mark_char a) norm"
  shows "\<exists>st'. write_span stem spacy_lemmatizer a sp st = Inr st'
           \<and> np2id st' (span_text sp) = Some (py_replace (mark_char a) '' '' norm)
           \<and> id2group st' (py_replace (mark_char a) '' '' norm) \<noteq> None
           \<and> marked_corpus_file st' = marked_corpus_file st
                @ py_replace '' '' (mark_char a) (py_replace (mark_char a) '' '' norm)
                @ mark_char a @ '' ''
           \<and> (\<forall>c. mark_char a = [c] \<longrightarrow>
                 py_replace (mark_char a) '' '' norm
                   = map (\<lambda>x. if x = c then CHR '' '' else x) norm)
           \<and> (\<forall>tok cur. cur_span cur = Some sp \<longrightarrow>
                 (\<exists>cs'. process_token stem spacy_lemmatizer a tok (cur, st) = Inr cs'))"
proof -
  let ?k = "py_replace (mark_char a) '' '' norm"
  have k: "span_key stem spacy_lemmatizer a sp = Inr ?k"
    using assms(4,5) by (simp add: span_key_def)
  obtain st1 where g: "group_np stem spacy_lemmatizer a sp st = Inr (marked_text a ?k, st1)"
    using group_np_total [OF assms(3) k] by blast
  obtain k' where k': "span_key stem spacy_lemmatizer a sp = Inr k'"
    and u: "update_tables (span_text sp) k' (count_np (span_text sp) st) = Inr st1"
    using group_np_Inr [OF g] by blast
  have kk: "k' = ?k" using k k' by simp
  note r = update_tables_Inr [OF u [unfolded kk]]
  let ?st' = "file_write (marked_text a ?k @ '' '') st1"
  have w: "write_span stem spacy_lemmatizer a sp st = Inr ?st'"
    using write_span_grouping [OF assms(2,1)] g by simp
  have 1: "np2id ?st' (span_text sp) = Some ?k"
    using r by (simp add: file_write_def)
  have 2: "id2group ?st' ?k \<noteq> None"
    using r by (simp add: file_write_def)
  have 3: "marked_corpus_file ?st' = marked_corpus_file st
             @ py_replace '' '' (mark_char a) ?k @ mark_char a @ '' ''"
    using r by (simp add: file_write_def marked_text_def)
  have 4: "\<forall>c. mark_char a = [c] \<longrightarrow> ?k = map (\<lambda>x. if x = c then CHR '' '' else x) norm"
    by (simp add: py_replace_space_single)
  have 5: "\<forall>tok cur. cur_span cur = Some sp \<longrightarrow>
             (\<exists>cs'. process_token stem spacy_lemmatizer a tok (cur, st) = Inr cs')"
    using process_token_total w by blast
  show ?thesis using w 1 2 3 4 5 by blast
qed

theorem marker_collision_recovered_witness:
  "py_contains ''_'' ''a_b c''
   \<and> (\<exists>st'. write_span (\<lambda>s. s) (\<lambda>t p. [t]) grouping_args
          \<lparr>start_char = 0, end_char = 5, span_text = ''a_b c'', span_lemma = ''a_b c''\<rparr>
          init_state = Inr st'
        \<and> np2id st' ''a_b c'' = Some ''a b c''
        \<and> id2group st' ''a b c'' \<noteq> None
        \<and> marked_corpus_file st' = ''a_b_c_ '')"
proof -
  let ?sp = "\<lparr>start_char = 0, end_char = 5, span_text = ''a_b c'', span_lemma = ''a_b c''\<rparr>"
  have h: "grouping grouping_args" "\<not> rejected ?sp" "tables_ok init_state"
    "spacy_normalizer (\<lambda>s. s) (\<lambda>t p. [t]) (span_text ?sp) (Some (span_lemma ?sp)) = Inr ''a_b c''"
    "py_contains (mark_char grouping_args) ''a_b c''"
    by (simp_all add: grouping_args_def rejected_def tables_ok_init spacy_normalizer_def
          py_isupper_def is_upper_def is_lower_def py_split_space_def py_startswith_def)
  have e: "py_replace ''_'' '' '' ''a_b c'' = ''a b c''"
    "py_replace '' '' ''_'' ''a b c'' = ''a_b_c''"
    "marked_corpus_file init_state = []" "mark_char grouping_args = ''_''"
    by (simp_all add: py_startswith_def init_state_def grouping_args_def)
  have c: "py_contains ''_'' ''a_b c''" by (simp add: py_startswith_def)
  obtain st' where "write_span (\<lambda>s. s) (\<lambda>t p. [t]) grouping_args ?sp init_state = Inr st'"
    "np2id st' ''a_b c'' = Some ''a b c''" "id2group st' ''a b c'' \<noteq> None"
    "marked_corpus_file st' = ''a_b_c_ ''"
    using marker_collision_recovered [OF h] e by auto
  then show ?thesis using c by blast
qed

section \<open>The cursor over the spans of a line\<close>














section \<open>The representative of a group\<close>

lemma ny_line1_reached:
  "process_corpus (\<lambda>s. s) (\<lambda>t p. [t]) grouping_args [ny_line1] init_state = Inr ny_state1"
  by (simp add: eval_defs grouping_args_def ny_line1_def ny_state1_def numeral_2_eq_2
        fun_upd_twist [of "''NY''" "''New York''"])

lemma ny_line2_reached:
  "process_corpus (\<lambda>s. s) (\<lambda>t p. [t]) grouping_args [ny_line2] ny_state1 = Inr ny_state2"
  by (simp add: eval_defs grouping_args_def ny_line2_def ny_state1_def ny_state2_def
        numeral_2_eq_2 numeral_3_eq_3 eval_nat_numeral
        fun_upd_twist [of "''NY''" "''New York''"])


lemma group_after_mem:
  "v \<in> set (group_after og np) = (v = np \<or> (\<exists>g. og = Some g \<and> v \<in> set g))"
  by (auto simp: group_after_def split: option.splits)

lemma keyed_init: "keyed K init_state"
  by (simp add: keyed_def tables_ok_init) (simp add: init_state_def)

lemma keyed_file_write: "keyed K (file_write s st) = keyed K st"
  by (simp add: keyed_def tables_ok_file_write) (simp add: file_write_def)

lemma keyed_write_token: "keyed K st \<Longrightarrow> keyed K (write_token tok st)"
  by (simp add: write_token_def keyed_file_write)

lemma keyed_update_tables:
  assumes inv: "keyed K st" and k: "K np = k"
    and u: "update_tables np k (count_np np st) = Inr st'"
  shows "keyed K st'"
proof -
  define cnt where "cnt = count_of (np2count st)"
  define cnt' where "cnt' = (\<lambda>v. if v = np then cnt np + 1 else cnt v)"
  note r = update_tables_Inr [OF u]
  have G: "id2group st' = (id2group st)(k \<mapsto> group_after (id2group st k) np)"
    using r by simp
  have R: "id2rep st' = (id2rep st)(k \<mapsto> rep_after (count_np np st) k np)"
    using r by simp
  have C: "np2count st' = (np2count st)(np \<mapsto> cnt np + 1)"
    using r by (simp add: cnt_def)
  have c': "count_of (np2count st') = cnt'"
    using C by (auto simp: count_of_def cnt_def cnt'_def)
  have c1: "count_of (np2count (count_np np st)) = cnt'"
    by (auto simp: count_of_def cnt_def cnt'_def)
  have ok: "tables_ok st" using inv by (simp add: keyed_def)
  have a: "\<And>k g v. id2group st k = Some g \<Longrightarrow> v \<in> set g \<Longrightarrow> K v = k"
    using inv unfolding keyed_def by blast
  have b: "\<And>v. np2count st v \<noteq> None \<Longrightarrow> \<exists>g. id2group st (K v) = Some g \<and> v \<in> set g"
    using inv unfolding keyed_def by blast
  have z: "\<And>v. np2count st v \<noteq> Some 0"
    using inv unfolding keyed_def by blast
  have m: "\<And>k g r v. id2group st k = Some g \<Longrightarrow> id2rep st k = Some r \<Longrightarrow> v \<in> set g
             \<Longrightarrow> cnt v \<le> cnt r"
    using inv unfolding keyed_def cnt_def by blast
  have rg: "\<And>k g r. id2group st k = Some g \<Longrightarrow> id2rep st k = Some r \<Longrightarrow> r \<in> set g"
    using ok unfolding tables_ok_def by blast
  have rn: "\<And>k. (id2rep st k = None) = (id2group st k = None)"
    using ok unfolding tables_ok_def by blast
  have pos: "\<And>k g v. id2group st k = Some g \<Longrightarrow> v \<in> set g \<Longrightarrow> 1 \<le> cnt v"
  proof -
    fix k g v assume "id2group st k = Some g" "v \<in> set g"
    then have "np2count st v \<noteq> None" using ok unfolding tables_ok_def by blast
    then obtain c where "np2count st v = Some c" by auto
    moreover have "c \<noteq> 0" using z [of v] calculation by simp
    ultimately show "1 \<le> cnt v" by (simp add: cnt_def count_of_def)
  qed
  have ok': "tables_ok st'"
  proof -
    have "np2count (count_np np st) np \<noteq> None" by simp
    then show ?thesis
      using tables_ok_update_tables [OF tables_ok_count_np [OF ok] _ u] by blast
  qed
  have a': "\<forall>k' g v. id2group st' k' = Some g \<longrightarrow> v \<in> set g \<longrightarrow> K v = k'"
  proof (intro allI impI)
    fix k' g v assume g: "id2group st' k' = Some g" and v: "v \<in> set g"
    show "K v = k'"
    proof (cases "k' = k")
      case True
      then have "g = group_after (id2group st k) np" using g G by simp
      then have "v = np \<or> (\<exists>g0. id2group st k = Some g0 \<and> v \<in> set g0)"
        using v by (simp add: group_after_mem)
      then show ?thesis using True k a by blast
    next
      case False
      then have "id2group st k' = Some g" using g G by simp
      then show ?thesis using a v by blast
    qed
  qed
  have b': "\<forall>v. np2count st' v \<noteq> None \<longrightarrow> (\<exists>g. id2group st' (K v) = Some g \<and> v \<in> set g)"
  proof (intro allI impI)
    fix v assume n: "np2count st' v \<noteq> None"
    show "\<exists>g. id2group st' (K v) = Some g \<and> v \<in> set g"
    proof (cases "v = np")
      case True
      then show ?thesis using G k by (simp add: group_after_mem)
    next
      case False
      then have "np2count st v \<noteq> None" using n C by simp
      then obtain g0 where g0: "id2group st (K v) = Some g0" "v \<in> set g0" using b by blast
      show ?thesis
      proof (cases "K v = k")
        case True
        then show ?thesis using G g0 by (simp add: group_after_mem)
      next
        case False
        then show ?thesis using G g0 by simp
      qed
    qed
  qed
  have z': "\<forall>v. np2count st' v \<noteq> Some 0"
    using C z by simp
  have m': "\<forall>k' g r v. id2group st' k' = Some g \<longrightarrow> id2rep st' k' = Some r \<longrightarrow> v \<in> set g
              \<longrightarrow> cnt' v \<le> cnt' r"
  proof (intro allI impI)
    fix k' g r v
    assume g: "id2group st' k' = Some g" and rr: "id2rep st' k' = Some r" and v: "v \<in> set g"
    show "cnt' v \<le> cnt' r"
    proof (cases "k' = k")
      case False
      then have g0: "id2group st k' = Some g" and r0: "id2rep st k' = Some r"
        using g rr G R by simp_all
      have "K v = k'" "K r = k'" using a g0 v rg [OF g0 r0] by blast+
      then have "v \<noteq> np" "r \<noteq> np" using False k by auto
      then show ?thesis using m [OF g0 r0 v] by (simp add: cnt'_def)
    next
      case True
      then have ge: "g = group_after (id2group st k) np"
        and re: "r = rep_after (count_np np st) k np"
        using g rr G R by simp_all
      show ?thesis
      proof (cases "id2group st k")
        case None
        then have "id2rep st k = None" using rn by simp
        then have "r = np" "g = [np]" using ge re None by (simp_all add: rep_after_def group_after_def)
        then show ?thesis using v by simp
      next
        case (Some g0)
        then obtain r0 where r0: "id2rep st k = Some r0"
          using rn [of k] by (cases "id2rep st k") auto
        have r0g: "r0 \<in> set g0" using rg [OF Some r0] .
        show ?thesis
        proof (cases "np \<in> set g0")
          case False
          have gg: "g = g0 @ [np]" using ge Some False by (simp add: group_after_def)
          have rr0: "r = r0" using re Some r0 False by (simp add: rep_after_def)
          have "np2count st np = None"
          proof (rule ccontr)
            assume "np2count st np \<noteq> None"
            then obtain g1 where "id2group st (K np) = Some g1" "np \<in> set g1" using b by blast
            then show False using k Some False by simp
          qed
          then have c0: "cnt np = 0" by (simp add: cnt_def count_of_def)
          have ne: "r0 \<noteq> np" using r0g False by auto
          have p: "1 \<le> cnt r0" using pos [OF Some r0g] .
          show ?thesis
          proof (cases "v = np")
            case True
            then show ?thesis using rr0 ne c0 p by (simp add: cnt'_def)
          next
            case False
            then have "v \<in> set g0" using v gg by simp
            then have "cnt v \<le> cnt r0" using m [OF Some r0] by blast
            then show ?thesis using rr0 ne False by (simp add: cnt'_def)
          qed
        next
          case True
          have gg: "g = g0" using ge Some True by (simp add: group_after_def)
          have rr0: "r = (if cnt' r0 < cnt' np then np else r0)"
            using re Some r0 True c1 by (simp add: rep_after_def)
          have vr: "cnt v \<le> cnt r0" using m [OF Some r0] v gg by blast
          have nr: "cnt np \<le> cnt r0" using m [OF Some r0 True] .
          show ?thesis
            using rr0 vr nr by (auto simp: cnt'_def split: if_splits)
        qed
      qed
    qed
  qed
  show ?thesis
    unfolding keyed_def using ok' a' b' z' m' c' by simp
qed


lemma keyed_group_np:
  assumes "keyed K st" and "span_keyed stem spacy_lemmatizer a K sp"
  shows "\<exists>t st'. group_np stem spacy_lemmatizer a sp st = Inr (t, st') \<and> keyed K st'
           \<and> marked_corpus_file st' = marked_corpus_file st"
proof -
  have k: "span_key stem spacy_lemmatizer a sp = Inr (K (span_text sp))"
    using assms(2) by (simp add: span_keyed_def)
  have ok: "tables_ok st" using assms(1) by (simp add: keyed_def)
  obtain st' where g: "group_np stem spacy_lemmatizer a sp st
      = Inr (marked_text a (K (span_text sp)), st')"
    using group_np_total [OF ok k] by blast
  obtain k' where k': "span_key stem spacy_lemmatizer a sp = Inr k'"
    and u: "update_tables (span_text sp) k' (count_np (span_text sp) st) = Inr st'"
    using group_np_Inr [OF g] by blast
  have e: "k' = K (span_text sp)" using k k' by simp
  have "keyed K st'"
    using keyed_update_tables [OF assms(1) refl u [unfolded e]] .
  moreover have "marked_corpus_file st' = marked_corpus_file st"
    using update_tables_Inr [OF u] by simp
  ultimately show ?thesis using g by blast
qed

lemma keyed_write_span:
  assumes "keyed K st" and "span_keyed stem spacy_lemmatizer a K sp"
  shows "\<exists>st'. write_span stem spacy_lemmatizer a sp st = Inr st' \<and> keyed K st'"
proof (cases "rejected sp")
  case True
  then show ?thesis using assms(1) by (simp add: write_span_rejected keyed_file_write)
next
  case False
  show ?thesis
  proof (cases "grouping a")
    case True
    obtain t st1 where "group_np stem spacy_lemmatizer a sp st = Inr (t, st1)" "keyed K st1"
      using keyed_group_np [OF assms] by blast
    then show ?thesis
      using write_span_grouping [OF False True, of stem spacy_lemmatizer st]
      by (simp add: keyed_file_write)
  next
    case plain: False
    show ?thesis
      using write_span_plain [OF False plain, of stem spacy_lemmatizer st] assms(1)
      by (simp add: keyed_file_write)
  qed
qed

lemma cursor_keyed_next_span:
  "list_all (span_keyed stem spacy_lemmatizer a K) ss
   \<Longrightarrow> cursor_keyed stem spacy_lemmatizer a K (next_span ss)"
  by (cases ss) (simp_all add: cursor_keyed_def next_span_def)

lemma keyed_process_token:
  assumes "keyed K st" and "cursor_keyed stem spacy_lemmatizer a K cur"
  shows "\<exists>cur' st'. process_token stem spacy_lemmatizer a tok (cur, st) = Inr (cur', st')
           \<and> keyed K st' \<and> cursor_keyed stem spacy_lemmatizer a K cur'"
proof (cases "cur_span cur")
  case None
  then show ?thesis
    using assms by (simp add: process_token_def keyed_write_token)
next
  case (Some sp)
  show ?thesis
  proof (cases "tok_idx tok < start_char sp \<or> tok_idx tok \<ge> end_char sp")
    case True
    then show ?thesis
      using Some assms by (simp add: process_token_def keyed_write_token)
  next
    case False
    have sk: "span_keyed stem spacy_lemmatizer a K sp"
      and rest: "list_all (span_keyed stem spacy_lemmatizer a K) (cur_spans cur)"
      using assms(2) Some by (simp_all add: cursor_keyed_def)
    obtain st' where w: "(if \<not> spanWritten cur then write_span stem spacy_lemmatizer a sp st
                          else Inr st) = Inr st'" and inv: "keyed K st'"
      using keyed_write_span [OF assms(1) sk] assms(1) by (cases "spanWritten cur") auto
    have c1: "cursor_keyed stem spacy_lemmatizer a K (next_span (cur_spans cur))"
      using cursor_keyed_next_span [OF rest] .
    have c2: "cursor_keyed stem spacy_lemmatizer a K (cur\<lparr>spanWritten := True\<rparr>)"
      using assms(2) by (simp add: cursor_keyed_def)
    have "process_token stem spacy_lemmatizer a tok (cur, st)
            = (if tok_idx tok + int (length (tok_text tok)) = end_char sp
               then Inr (next_span (cur_spans cur), st')
               else Inr (cur\<lparr>spanWritten := True\<rparr>, st'))"
      using Some False w by (simp add: process_token_def)
    then show ?thesis using inv c1 c2 by auto
  qed
qed

lemma keyed_process_tokens:
  assumes "keyed K st" and "cursor_keyed stem spacy_lemmatizer a K cur"
  shows "\<exists>cur' st'. process_tokens stem spacy_lemmatizer a toks (cur, st) = Inr (cur', st')
           \<and> keyed K st'"
  using assms
proof (induction toks arbitrary: cur st)
  case Nil
  then show ?case by simp
next
  case (Cons tok toks)
  obtain cur1 st1 where p: "process_token stem spacy_lemmatizer a tok (cur, st) = Inr (cur1, st1)"
    and i: "keyed K st1" "cursor_keyed stem spacy_lemmatizer a K cur1"
    using keyed_process_token [OF Cons.prems] by blast
  show ?case using Cons.IH [OF i] p by simp
qed

lemma keyed_process_doc:
  assumes "keyed K st" and "list_all (span_keyed stem spacy_lemmatizer a K) (noun_chunks d)"
  shows "\<exists>st'. process_doc stem spacy_lemmatizer a d st = Inr st' \<and> keyed K st'"
proof -
  obtain cur' st1 where "process_tokens stem spacy_lemmatizer a (doc_tokens d)
       (next_span (noun_chunks d), st) = Inr (cur', st1)" "keyed K st1"
    using keyed_process_tokens [OF assms(1) cursor_keyed_next_span [OF assms(2)]] by blast
  then show ?thesis by (simp add: process_doc_def keyed_file_write)
qed

lemma keyed_process_corpus:
  assumes "keyed K st" and "keys_consistent stem spacy_lemmatizer a K docs"
  shows "\<exists>st'. process_corpus stem spacy_lemmatizer a docs st = Inr st' \<and> keyed K st'"
  using assms
proof (induction docs arbitrary: st)
  case Nil
  then show ?case by simp
next
  case (Cons d docs)
  have d: "list_all (span_keyed stem spacy_lemmatizer a K) (noun_chunks d)"
    and ds: "keys_consistent stem spacy_lemmatizer a K docs"
    using Cons.prems(2) by (simp_all add: keys_consistent_def)
  obtain st1 where p: "process_doc stem spacy_lemmatizer a d st = Inr st1" and i: "keyed K st1"
    using keyed_process_doc [OF Cons.prems(1) d] by blast
  show ?case using Cons.IH [OF i ds] p by simp
qed

lemma keys_consistent_take:
  "keys_consistent stem spacy_lemmatizer a K docs
   \<Longrightarrow> keys_consistent stem spacy_lemmatizer a K (take n docs)"
  unfolding keys_consistent_def list_all_iff using set_take_subset by fastforce

lemma keyed_representative:
  assumes "keyed K st" and "id2group st k = Some g"
  shows "\<exists>r. id2rep st k = Some r \<and> r \<in> set g
           \<and> (\<forall>v \<in> set g. count_of (np2count st) v \<le> count_of (np2count st) r)"
proof -
  have ok: "tables_ok st" using assms(1) by (simp add: keyed_def)
  obtain r where r: "id2rep st k = Some r"
    using ok assms(2) unfolding tables_ok_def by (cases "id2rep st k") auto
  have "r \<in> set g" using ok assms(2) r unfolding tables_ok_def by blast
  moreover have "\<forall>v \<in> set g. count_of (np2count st) v \<le> count_of (np2count st) r"
    using assms r unfolding keyed_def by blast
  ultimately show ?thesis using r by blast
qed


lemma cat_corpus_reached:
  "process_corpus (\<lambda>s. s) (\<lambda>t p. [t]) grouping_args cat_corpus init_state = Inr cat_state"
  by (simp add: eval_defs grouping_args_def cat_corpus_def cats_doc_def cat_doc_def cat_state_def
        numeral_2_eq_2 fun_upd_twist [of "''cat''" "''cats''"])

lemma leaves_corpus_reached:
  "process_corpus (\<lambda>s. s) (\<lambda>t p. [t]) grouping_args leaves_corpus init_state
     = Inr leaves_state2"
  by (simp add: eval_defs grouping_args_def leaves_corpus_def leaves_doc_def leave_doc_def
        leaves_state2_def numeral_2_eq_2 numeral_3_eq_3
        fun_upd_twist [of "''the leave''" "''the leaves''"])

lemma ny_corpus_reached:
  "process_corpus (\<lambda>s. s) (\<lambda>t p. [t]) grouping_args ny_corpus init_state = Inr ny_state2"
proof -
  have 1: "process_doc (\<lambda>s. s) (\<lambda>t p. [t]) grouping_args ny_line1 init_state = Inr ny_state1"
    using ny_line1_reached by (simp split: sum.splits)
  have 2: "process_doc (\<lambda>s. s) (\<lambda>t p. [t]) grouping_args ny_line2 ny_state1 = Inr ny_state2"
    using ny_line2_reached by (simp split: sum.splits)
  show ?thesis by (simp add: ny_corpus_def 1 2)
qed

lemma representative_replaced:
  assumes "tables_ok st" and "group_np stem spacy_lemmatizer a sp st = Inr (t, st')"
    and "id2rep st k = Some r"
  shows "id2rep st' k = Some r
         \<or> (id2rep st' k = Some (span_text sp)
            \<and> count_of (np2count st') r < count_of (np2count st') (span_text sp))"
proof -
  obtain k' where u: "update_tables (span_text sp) k' (count_np (span_text sp) st) = Inr st'"
    using group_np_Inr [OF assms(2)] by blast
  note e = update_tables_Inr [OF u]
  show ?thesis
  proof (cases "k = k'")
    case False
    then show ?thesis using e assms(3) by simp
  next
    case True
    have "(id2rep st k = None) = (id2group st k = None)"
      using assms(1) unfolding tables_ok_def by blast
    then obtain g where g: "id2group st k = Some g"
      using assms(3) by (cases "id2group st k") auto
    have "np2count st' = np2count (count_np (span_text sp) st)" using e by simp
    then show ?thesis
      using e True assms(3) g by (auto simp: rep_after_def)
  qed
qed

lemma cat_corpus_consistent:
  "keys_consistent (\<lambda>s. s) (\<lambda>t p. [t]) grouping_args (\<lambda>v. ''cat'') cat_corpus"
  by (simp add: keys_consistent_def span_keyed_def cat_corpus_def cats_doc_def cat_doc_def
        span_key_def spacy_normalizer_def py_isupper_def is_upper_def is_lower_def
        py_split_space_def py_startswith_def grouping_args_def)

lemma ny_corpus_consistent:
  "keys_consistent (\<lambda>s. s) (\<lambda>t p. [t]) grouping_args (\<lambda>v. ''New York'') ny_corpus"
  by (simp add: keys_consistent_def span_keyed_def ny_corpus_def ny_line1_def ny_line2_def
        span_key_def spacy_normalizer_def py_isupper_def is_upper_def is_lower_def
        py_endswith_def py_split_space_def py_startswith_def grouping_args_def)

text \<open>
  Claim C1, as amended. When every phrase text has one key, the run over any number
  of lines of the corpus returns, and in the state after these lines every key of
  \<open>id2group\<close> has a representative in \<open>id2rep\<close> that is a member of its group and
  whose count is the highest of the group: no member has a higher one. The update for
  a noun phrase leaves the representative of a key as it was or replaces it by the
  phrase, and it replaces it only when the count of the phrase is then higher than the
  count of the representative; on a tie the representative stays.
\<close>

theorem representative_has_max_count:
  assumes "keys_consistent stem spacy_lemmatizer a K docs"
  shows "(\<exists>st. process_corpus stem spacy_lemmatizer a (take n docs) init_state = Inr st
            \<and> (\<forall>k g. id2group st k = Some g \<longrightarrow>
                  (\<exists>r. id2rep st k = Some r \<and> r \<in> set g
                     \<and> (\<forall>v \<in> set g. count_of (np2count st) v \<le> count_of (np2count st) r))))
       \<and> (\<forall>sp st t st' k r. tables_ok st \<longrightarrow>
              group_np stem spacy_lemmatizer a sp st = Inr (t, st') \<longrightarrow> id2rep st k = Some r \<longrightarrow>
              id2rep st' k = Some r
              \<or> (id2rep st' k = Some (span_text sp)
                 \<and> count_of (np2count st') r < count_of (np2count st') (span_text sp)))"
proof
  obtain st where p: "process_corpus stem spacy_lemmatizer a (take n docs) init_state = Inr st"
    and i: "keyed K st"
    using keyed_process_corpus [OF keyed_init keys_consistent_take [OF assms]] by blast
  have "\<forall>k g. id2group st k = Some g \<longrightarrow>
          (\<exists>r. id2rep st k = Some r \<and> r \<in> set g
             \<and> (\<forall>v \<in> set g. count_of (np2count st) v \<le> count_of (np2count st) r))"
    using keyed_representative [OF i] by blast
  then show "\<exists>st. process_corpus stem spacy_lemmatizer a (take n docs) init_state = Inr st
            \<and> (\<forall>k g. id2group st k = Some g \<longrightarrow>
                  (\<exists>r. id2rep st k = Some r \<and> r \<in> set g
                     \<and> (\<forall>v \<in> set g. count_of (np2count st) v \<le> count_of (np2count st) r)))"
    using p by blast
next
  show "\<forall>sp st t st' k r. tables_ok st \<longrightarrow>
              group_np stem spacy_lemmatizer a sp st = Inr (t, st') \<longrightarrow> id2rep st k = Some r \<longrightarrow>
              id2rep st' k = Some r
              \<or> (id2rep st' k = Some (span_text sp)
                 \<and> count_of (np2count st') r < count_of (np2count st') (span_text sp))"
    using representative_replaced by blast
qed

text \<open>
  After three and after four of the lines with \<open>cats\<close> and \<open>cat\<close>: the representative
  of the key \<open>cat\<close> is \<open>cat\<close>, with the count 2 against 1 and then against 2.
\<close>

theorem representative_has_max_count_witness:
  "process_corpus (\<lambda>s. s) (\<lambda>t p. [t]) grouping_args (take 3 cat_corpus) init_state
     = Inr (cat_state\<lparr>np2count := [''cats'' \<mapsto> 1, ''cat'' \<mapsto> 2],
                      marked_corpus_file := ''cat_ '' @ [CHR 0x0A] @ ''cat_ '' @ [CHR 0x0A]
                             @ ''cat_ '' @ [CHR 0x0A]\<rparr>)
   \<and> process_corpus (\<lambda>s. s) (\<lambda>t p. [t]) grouping_args (take 4 cat_corpus) init_state
     = Inr cat_state
   \<and> id2rep cat_state ''cat'' = Some ''cat''
   \<and> count_of (np2count cat_state) ''cats'' \<le> count_of (np2count cat_state) ''cat''"
proof -
  have 3: "process_corpus (\<lambda>s. s) (\<lambda>t p. [t]) grouping_args (take 3 cat_corpus) init_state
     = Inr (cat_state\<lparr>np2count := [''cats'' \<mapsto> 1, ''cat'' \<mapsto> 2],
                      marked_corpus_file := ''cat_ '' @ [CHR 0x0A] @ ''cat_ '' @ [CHR 0x0A]
                             @ ''cat_ '' @ [CHR 0x0A]\<rparr>)"
    by (simp add: eval_defs grouping_args_def cat_corpus_def cats_doc_def cat_doc_def
          cat_state_def numeral_2_eq_2 fun_upd_twist [of "''cat''" "''cats''"])
  have 4: "process_corpus (\<lambda>s. s) (\<lambda>t p. [t]) grouping_args (take 4 cat_corpus) init_state
     = Inr cat_state"
    using cat_corpus_reached by (simp add: cat_corpus_def)
  have g: "id2group cat_state ''cat'' = Some [''cats'', ''cat'']"
    by (simp add: cat_state_def)
  obtain st where a: "process_corpus (\<lambda>s. s) (\<lambda>t p. [t]) grouping_args (take 4 cat_corpus)
        init_state = Inr st"
    and b: "\<forall>k g. id2group st k = Some g \<longrightarrow>
              (\<exists>r. id2rep st k = Some r \<and> r \<in> set g
                 \<and> (\<forall>v \<in> set g. count_of (np2count st) v \<le> count_of (np2count st) r))"
    using representative_has_max_count [OF cat_corpus_consistent, of 4] by blast
  have "st = cat_state" using a 4 by simp
  then obtain r where r: "id2rep cat_state ''cat'' = Some r"
    "\<forall>v \<in> set [''cats'', ''cat'']. count_of (np2count cat_state) v
         \<le> count_of (np2count cat_state) r"
    using b g by blast
  have c: "id2rep cat_state ''cat'' = Some ''cat''" by (simp add: cat_state_def)
  then have "r = ''cat''" using r(1) by simp
  then have "count_of (np2count cat_state) ''cats'' \<le> count_of (np2count cat_state) ''cat''"
    using r(2) by simp
  then show ?thesis using 3 4 c by simp
qed

text \<open>
  The claim as it is written fails. After the lines \<open>cats\<close>, \<open>cat\<close>, \<open>cat\<close>, \<open>cats\<close>
  both variants have the count 2 and the representative is \<open>cat\<close>, which reached the
  count first, not \<open>cats\<close>, which is first in the group. After the lines with
  \<open>the leaves\<close> under two lemmas, the representative of the key \<open>the leave\<close> has the
  count 1 while \<open>the leaves\<close>, in the same group, has the count 3.
\<close>

theorem representative_has_max_count_counterexample:
  "process_corpus (\<lambda>s. s) (\<lambda>t p. [t]) grouping_args cat_corpus init_state = Inr cat_state
   \<and> id2group cat_state ''cat'' = Some [''cats'', ''cat'']
   \<and> id2rep cat_state ''cat'' = Some ''cat''
   \<and> first_max (np2count cat_state) [''cats'', ''cat''] = Some ''cats''
   \<and> process_corpus (\<lambda>s. s) (\<lambda>t p. [t]) grouping_args leaves_corpus init_state
       = Inr leaves_state2
   \<and> id2group leaves_state2 ''the leave'' = Some [''the leave'', ''the leaves'']
   \<and> id2rep leaves_state2 ''the leave'' = Some ''the leave''
   \<and> first_max (np2count leaves_state2) [''the leave'', ''the leaves''] = Some ''the leaves''"
  by (simp add: cat_corpus_reached leaves_corpus_reached)
     (simp add: cat_state_def leaves_state2_def count_of_def)

text \<open>
  Claim C5. With the noun phrases \<open>New York\<close> and \<open>NY\<close> under the same key, for every
  corpus in which every phrase text has one key the run returns, and when in its
  last state \<open>New York\<close> has the count 3 and \<open>NY\<close> the count 5, and no other counted
  phrase has their key, the representative of the key is \<open>NY\<close>. The order of the
  occurrences in the corpus plays no part.
\<close>

theorem new_york_representative:
  assumes "keys_consistent stem spacy_lemmatizer a K docs"
    and "K ''New York'' = key" and "K ''NY'' = key"
  shows "\<exists>st. process_corpus stem spacy_lemmatizer a docs init_state = Inr st
           \<and> (np2count st ''New York'' = Some 3 \<longrightarrow> np2count st ''NY'' = Some 5 \<longrightarrow>
                (\<forall>v. np2count st v \<noteq> None \<longrightarrow> K v = key \<longrightarrow> v = ''New York'' \<or> v = ''NY'')
                \<longrightarrow> id2rep st key = Some ''NY'')"
proof -
  obtain st where p: "process_corpus stem spacy_lemmatizer a docs init_state = Inr st"
    and i: "keyed K st"
    using keyed_process_corpus [OF keyed_init assms(1)] by blast
  have "id2rep st key = Some ''NY''"
    if c3: "np2count st ''New York'' = Some 3" and c5: "np2count st ''NY'' = Some 5"
      and only: "\<forall>v. np2count st v \<noteq> None \<longrightarrow> K v = key \<longrightarrow> v = ''New York'' \<or> v = ''NY''"
  proof -
    have "np2count st ''NY'' \<noteq> None" using c5 by simp
    then obtain g where g: "id2group st key = Some g" "''NY'' \<in> set g"
      using i assms(3) unfolding keyed_def by blast
    obtain r where r: "id2rep st key = Some r" "r \<in> set g"
      "\<forall>v \<in> set g. count_of (np2count st) v \<le> count_of (np2count st) r"
      using keyed_representative [OF i g(1)] by blast
    have "K r = key" using i g(1) r(2) unfolding keyed_def by blast
    moreover have "np2count st r \<noteq> None"
      using i g(1) r(2) unfolding keyed_def tables_ok_def by blast
    ultimately have "r = ''New York'' \<or> r = ''NY''" using only by blast
    moreover have "5 \<le> count_of (np2count st) r"
      using r(3) g(2) c5 by (auto simp: count_of_def)
    moreover have "count_of (np2count st) ''New York'' = 3" using c3 by (simp add: count_of_def)
    ultimately have "r = ''NY''" by auto
    then show ?thesis using r(1) by simp
  qed
  then show ?thesis using p by blast
qed

text \<open>
  The two lines with the occurrences in the order \<open>New York\<close>, \<open>NY\<close>, \<open>NY\<close>,
  \<open>New York\<close> and \<open>NY\<close>, \<open>New York\<close>, \<open>NY\<close>, \<open>NY\<close>.
\<close>

theorem new_york_representative_witness:
  "process_corpus (\<lambda>s. s) (\<lambda>t p. [t]) grouping_args ny_corpus init_state = Inr ny_state2
   \<and> np2count ny_state2 ''New York'' = Some 3 \<and> np2count ny_state2 ''NY'' = Some 5
   \<and> id2rep ny_state2 ''New York'' = Some ''NY''"
proof -
  have c: "np2count ny_state2 ''New York'' = Some 3" "np2count ny_state2 ''NY'' = Some 5"
    by (simp_all add: ny_state2_def)
  have o: "\<forall>v. np2count ny_state2 v \<noteq> None \<longrightarrow> (\<lambda>v. ''New York'') v = ''New York''
             \<longrightarrow> v = ''New York'' \<or> v = ''NY''"
    by (simp add: ny_state2_def)
  have "id2rep ny_state2 ''New York'' = Some ''NY''"
    using new_york_representative [OF ny_corpus_consistent refl refl] ny_corpus_reached c o
    by auto
  then show ?thesis using ny_corpus_reached c by simp
qed

end
